theory Spec2Isabelle
  imports Complex_Main "HOL-Library.Log_Nat"
begin

section \<open>errbot.backends.base: identifiers, messages, presences, streams, reconnection\<close>

text \<open>
  A shallow embedding of \<^verbatim>\<open>errbot/backends/base.py\<close>. Methods that mutate \<^verbatim>\<open>self\<close>
  take the object and return the updated one; a method that can raise returns the pair of
  its outcome (\<open>Inl\<close> the exception, \<open>Inr\<close> the returned value) and the object as it is
  left behind, so that "raises and leaves the object untouched" is a statement about the
  model.
\<close>

subsection \<open>Exceptions\<close>

datatype exn =
    ValueError string
  | NotImplementedError string
  | KeyboardInterrupt

subsection \<open>Identifier classes\<close>

text \<open>
  The file declares four classes: \<^verbatim>\<open>Identifier(ABC)\<close>, \<^verbatim>\<open>Person(Identifier)\<close>,
  \<^verbatim>\<open>RoomOccupant(Identifier)\<close> and \<^verbatim>\<open>Room(Identifier)\<close>. \<open>bases\<close> is read off the
  class statements, and \<open>issubclass\<close> follows it.

  The identifier objects the code receives are instances of back-end classes. Such a class
  may derive from none, one or several of the four (\<^verbatim>\<open>class Occupant(Person, RoomOccupant)\<close>
  is legal and nothing in the file forbids it), so an object carries the list of the
  classes of this file that its own class derives from, and an opaque payload (the
  back-end's data). \<open>isinstance\<close> is Python's: true when the class is reached from any of
  them, and false of \<open>None\<close>.
\<close>

datatype cls = Identifier | Person | RoomOccupant | Room

datatype identifier_obj = Instance "cls list" string

fun bases :: "cls \<Rightarrow> cls list" where
  "bases Identifier = []"
| "bases Person = [Identifier]"
| "bases RoomOccupant = [Identifier]"
| "bases Room = [Identifier]"

definition issubclass :: "cls \<Rightarrow> cls \<Rightarrow> bool" where
  "issubclass c d = (d \<in> set (c # bases c @ concat (map bases (bases c))))"

fun isinstance :: "identifier_obj option \<Rightarrow> cls \<Rightarrow> bool" where
  "isinstance None d = False"
| "isinstance (Some (Instance derived_from payload)) d =
     list_ex (\<lambda>c. issubclass c d) derived_from"

subsection \<open>Stream\<close>

definition STREAM_WAITING_TO_START :: string where
  "STREAM_WAITING_TO_START = ''pending''"

definition STREAM_TRANSFER_IN_PROGRESS :: string where
  "STREAM_TRANSFER_IN_PROGRESS = ''in progress''"

definition STREAM_SUCCESSFULLY_TRANSFERED :: string where
  "STREAM_SUCCESSFULLY_TRANSFERED = ''success''"

definition STREAM_PAUSED :: string where
  "STREAM_PAUSED = ''paused''"

definition STREAM_ERROR :: string where
  "STREAM_ERROR = ''error''"

definition STREAM_REJECTED :: string where
  "STREAM_REJECTED = ''rejected''"

definition DEFAULT_REASON :: string where
  "DEFAULT_REASON = ''unknown''"

lemmas stream_constants =
  STREAM_WAITING_TO_START_def STREAM_TRANSFER_IN_PROGRESS_def
  STREAM_SUCCESSFULLY_TRANSFERED_def STREAM_PAUSED_def STREAM_ERROR_def
  STREAM_REJECTED_def DEFAULT_REASON_def

text \<open>
  The binary source is a list of bytes. The status is a string, as in the source, so the
  theorems below quantify over every string, the six declared constants among them.
\<close>

type_synonym BinaryIO = "nat list"

record Stream =
  fsource :: BinaryIO
  stream_identifier :: "identifier_obj option"
  name :: "string option"
  size_field :: "int option"
  stream_type :: "string option"
  status :: string
  reason :: string
  transfered :: int

definition Stream_init ::
  "identifier_obj option \<Rightarrow> BinaryIO \<Rightarrow> string option \<Rightarrow> int option \<Rightarrow> string option \<Rightarrow> Stream" where
  "Stream_init ident src nm sz ty =
     \<lparr> fsource = src, stream_identifier = ident, name = nm, size_field = sz, stream_type = ty,
       status = STREAM_WAITING_TO_START, reason = DEFAULT_REASON, transfered = 0 \<rparr>"

definition accept :: "Stream \<Rightarrow> (exn + unit) \<times> Stream" where
  "accept s =
     (if status s \<noteq> STREAM_WAITING_TO_START
      then (Inl (ValueError ''Invalid state, the stream is not pending.''), s)
      else (Inr (), s\<lparr>status := STREAM_TRANSFER_IN_PROGRESS\<rparr>))"

definition reject :: "Stream \<Rightarrow> (exn + unit) \<times> Stream" where
  "reject s =
     (if status s \<noteq> STREAM_WAITING_TO_START
      then (Inl (ValueError ''Invalid state, the stream is not pending.''), s)
      else (Inr (), s\<lparr>status := STREAM_REJECTED\<rparr>))"

text \<open>
  \<^verbatim>\<open>error(self, reason=DEFAULT_REASON)\<close>: the optional argument is \<open>None\<close> when the
  caller omits it.
\<close>

definition error :: "Stream \<Rightarrow> string option \<Rightarrow> (exn + unit) \<times> Stream" where
  "error s r =
     (Inr (), s\<lparr>status := STREAM_ERROR,
                reason := (case r of None \<Rightarrow> DEFAULT_REASON | Some given \<Rightarrow> given)\<rparr>)"

definition success :: "Stream \<Rightarrow> (exn + unit) \<times> Stream" where
  "success s =
     (if status s \<noteq> STREAM_TRANSFER_IN_PROGRESS
      then (Inl (ValueError ''Invalid state, the stream is not in progress.''), s)
      else (Inr (), s\<lparr>status := STREAM_SUCCESSFULLY_TRANSFERED\<rparr>))"

definition clone_stream :: "Stream \<Rightarrow> BinaryIO \<Rightarrow> Stream" where
  "clone_stream s new_fsource =
     Stream_init (stream_identifier s) new_fsource (name s) (size_field s) (stream_type s)"

definition ack_data :: "Stream \<Rightarrow> int \<Rightarrow> (exn + unit) \<times> Stream" where
  "ack_data s len = (Inr (), s\<lparr>transfered := len\<rparr>)"

subsection \<open>Message\<close>

text \<open>
  \<^verbatim>\<open>clone\<close> is about object identity (a new instance, the same \<^verbatim>\<open>extras\<close> mapping), so
  messages and mappings live in a store: a reference is an address, the store maps the
  addresses in use to the objects there, and \<open>next_ref\<close> is the next free address. A
  mapping is an association list from keys to values; it is falsy exactly when it is
  empty.
\<close>

type_synonym ref = nat

type_synonym pydict = "(string \<times> string) list"

record Message =
  body :: string
  frm :: "identifier_obj option"
  to :: "identifier_obj option"
  delayed :: bool
  extras :: ref

record heap =
  dicts :: "ref \<rightharpoonup> pydict"
  messages :: "ref \<rightharpoonup> Message"
  next_ref :: ref

definition empty_heap :: heap where
  "empty_heap = \<lparr> dicts = Map.empty, messages = Map.empty, next_ref = 0 \<rparr>"

text \<open>\<^verbatim>\<open>dict()\<close>: a new empty mapping at a fresh address.\<close>

definition new_dict :: "heap \<Rightarrow> ref \<times> heap" where
  "new_dict h =
     (next_ref h, h\<lparr>dicts := (dicts h)(next_ref h \<mapsto> []), next_ref := next_ref h + 1\<rparr>)"

text \<open>
  The truth value of a mapping, as \<^verbatim>\<open>extras or dict()\<close> tests it: an empty mapping is
  falsy. (A reference to no mapping of the store does not occur; it counts as falsy.)
\<close>

definition truthy :: "heap \<Rightarrow> ref \<Rightarrow> bool" where
  "truthy h r = (case dicts h r of None \<Rightarrow> False | Some d \<Rightarrow> d \<noteq> [])"

text \<open>
  \<^verbatim>\<open>Message.__init__\<close>. \<^verbatim>\<open>compat_str\<close> comes from \<^verbatim>\<open>errbot.utils\<close>, which is not part
  of the file: it is a parameter. The message object is allocated first, then (when the
  argument is \<open>None\<close> or falsy) the new mapping.
\<close>

definition Message_init ::
  "(string \<Rightarrow> string) \<Rightarrow> heap \<Rightarrow> string \<Rightarrow> identifier_obj option \<Rightarrow> identifier_obj option \<Rightarrow>
     bool \<Rightarrow> ref option \<Rightarrow> ref \<times> heap" where
  "Message_init compat_str h body_arg frm_arg to_arg delayed_arg extras_arg =
     (let self = next_ref h;
          h1 = h\<lparr>next_ref := self + 1\<rparr>;
          (e, h2) = (case extras_arg of
                       None \<Rightarrow> new_dict h1
                     | Some r \<Rightarrow> if truthy h1 r then (r, h1) else new_dict h1)
      in (self,
          h2\<lparr>messages := (messages h2)(self \<mapsto>
               \<lparr> body = compat_str body_arg, frm = frm_arg, to = to_arg,
                 delayed = delayed_arg, extras = e \<rparr>)\<rparr>))"

text \<open>
  \<^verbatim>\<open>clone\<close> on the message at address \<open>self\<close>; \<open>None\<close> when there is no message
  there.
\<close>

definition clone :: "(string \<Rightarrow> string) \<Rightarrow> heap \<Rightarrow> ref \<Rightarrow> (ref \<times> heap) option" where
  "clone compat_str h self =
     (case messages h self of
        None \<Rightarrow> None
      | Some m \<Rightarrow>
          Some (Message_init compat_str h (body m) (frm m) (to m) (delayed m) (Some (extras m))))"

text \<open>The \<^verbatim>\<open>to\<close> setter and the two classification properties.\<close>

definition set_to :: "Message \<Rightarrow> identifier_obj option \<Rightarrow> Message" where
  "set_to m v = m\<lparr>to := v\<rparr>"

definition is_direct :: "Message \<Rightarrow> bool" where
  "is_direct m = isinstance (to m) Person"

definition is_group :: "Message \<Rightarrow> bool" where
  "is_group m = isinstance (to m) Room"

subsection \<open>Presence\<close>

record Presence =
  presence_identifier :: "identifier_obj option"
  presence_status :: "string option"
  presence_message :: "string option"

definition Presence_init ::
  "identifier_obj option \<Rightarrow> string option \<Rightarrow> string option \<Rightarrow> exn + Presence" where
  "Presence_init ident st msg =
     (if ident = None then Inl (ValueError ''Presence: identifiers is None'')
      else if st = None \<and> msg = None
      then Inl (ValueError
             ''Presence: at least a new status or a new status message mustbe present'')
      else Inr \<lparr> presence_identifier = ident, presence_status = st,
                 presence_message = msg \<rparr>)"

subsection \<open>Binary64 arithmetic\<close>

text \<open>
  The reconnection delay is a Python float once it has been multiplied by 1.75, and
  \<^verbatim>\<open>random.uniform\<close> computes in floats. A float is modelled by the rational it denotes,
  and every float operation rounds the exact result to the nearest binary64 value, ties
  to the even significand: \<open>binary64\<close>. A positive \<open>x\<close> lies in
  \<open>[2 ^ floor_log2 x, 2 ^ (floor_log2 x + 1))\<close>; its 53-bit significand is \<open>x\<close> scaled by
  \<open>2 ^ (floor_log2 x - 52)\<close> and rounded to an integer, with the exponent held at
  \<open>- 1074\<close> for subnormal values. Overflow to infinity (beyond \<open>2 ^ 1024\<close>) is not
  modelled; the delays stay below 604.
\<close>

definition pow2 :: "int \<Rightarrow> rat" where
  "pow2 e = (if 0 \<le> e then 2 ^ nat e else 1 / 2 ^ nat (- e))"

definition floor_log2 :: "rat \<Rightarrow> int" where
  "floor_log2 x =
     (let (p, q) = quotient_of x; k = bitlen p - bitlen q
      in if pow2 k \<le> x then k else k - 1)"

definition round_half_even :: "rat \<Rightarrow> int" where
  "round_half_even y =
     (let f = \<lfloor>y\<rfloor>; r = y - of_int f
      in if r < 1 / 2 then f else if 1 / 2 < r then f + 1 else if even f then f else f + 1)"

definition binary64 :: "rat \<Rightarrow> rat" where
  "binary64 x =
     (if x = 0 then 0
      else let e = max (floor_log2 \<bar>x\<bar> - 52) (- 1074)
           in of_int (round_half_even (x / pow2 e)) * pow2 e)"

subsection \<open>Backend: reconnection\<close>

text \<open>
  The count is a Python integer. The delay, the maximum and the multiplier are numbers
  (the integers 1 and 600, the float 1.75), each held as the rational it denotes; integers
  of this size convert to floats exactly.
\<close>

record Backend =
  reconnection_count :: int
  reconnection_delay :: rat
  reconnection_max_delay :: rat
  reconnection_multiplier :: rat
  reconnection_jitter :: "rat \<times> rat"

definition Backend_init :: "string \<Rightarrow> Backend" where
  "Backend_init bot_identity =
     \<lparr> reconnection_count = 0, reconnection_delay = 1, reconnection_max_delay = 600,
       reconnection_multiplier = 7 / 4, reconnection_jitter = (0, 3) \<rparr>"

text \<open>
  What the program does that a caller can observe: the calls to \<^verbatim>\<open>serve_once\<close>,
  \<^verbatim>\<open>time.sleep\<close> and \<^verbatim>\<open>shutdown\<close>, and the log records. (\<^verbatim>\<open>shutdown\<close> is a
  method of the subclass; here only the call is recorded.)
\<close>

datatype event =
    CallServeOnce
  | LogException
  | LogReconnecting rat int
  | Sleep rat
  | LogInterrupt
  | LogTriggerShutdown
  | CallShutdown

text \<open>
  What the environment answers. \<^verbatim>\<open>serve_once\<close> returns a value (of which only the truth
  value is used), raises an exception that the bare \<^verbatim>\<open>except\<close> catches, or is interrupted
  (\<^verbatim>\<open>KeyboardInterrupt\<close>). \<^verbatim>\<open>time.sleep\<close> completes, after which \<^verbatim>\<open>random\<close> draws
  a float \<open>u\<close> of \<open>[0, 1)\<close>, or is interrupted.
\<close>

datatype serve_outcome = Returned bool | Raised | Interrupted

datatype sleep_outcome = Slept rat | SleepInterrupted

text \<open>
  \<^verbatim>\<open>random.uniform(a, b)\<close> is \<^verbatim>\<open>a + (b - a) * random()\<close>: a difference, a product
  and a sum, each rounded (the difference of the integers 3 and 0 is exact).
\<close>

definition uniform :: "rat \<Rightarrow> rat \<Rightarrow> rat \<Rightarrow> rat" where
  "uniform a b u = binary64 (a + binary64 (binary64 (b - a) * u))"

fun delay_reconnect :: "Backend \<Rightarrow> sleep_outcome \<Rightarrow> (exn + unit) \<times> Backend \<times> event list" where
  "delay_reconnect b SleepInterrupted =
     (Inl KeyboardInterrupt, b, [Sleep (reconnection_delay b)])"
| "delay_reconnect b (Slept u) =
     (let d = binary64 (reconnection_delay b * reconnection_multiplier b);
          d = (if d > reconnection_max_delay b then reconnection_max_delay b else d);
          d = binary64
                (d + uniform (fst (reconnection_jitter b)) (snd (reconnection_jitter b)) u)
      in (Inr (), b\<lparr>reconnection_delay := d\<rparr>, [Sleep (reconnection_delay b)]))"

definition reset_reconnection_count :: "Backend \<Rightarrow> Backend" where
  "reset_reconnection_count b = b\<lparr>reconnection_count := 0, reconnection_delay := 1\<rparr>"

text \<open>
  The \<^verbatim>\<open>while True\<close> loop of \<^verbatim>\<open>serve_forever\<close>, run against a script: one pair of answers
  per iteration (the second is not used when the iteration leaves the loop before
  sleeping). The loop has no bound of its own: \<open>None\<close> says that the script ended with
  the loop still running. Otherwise the result is how the loop was left (\<open>Inl\<close> an
  exception that no handler caught), the back-end's state and the events in order.
\<close>

fun serve_loop ::
  "Backend \<Rightarrow> (serve_outcome \<times> sleep_outcome) list \<Rightarrow> ((exn + unit) \<times> Backend \<times> event list) option" where
  "serve_loop b [] = None"
| "serve_loop b ((served, slept) # script) =
     (if served = Returned True then Some (Inr (), b, [CallServeOnce])
      else if served = Interrupted then Some (Inr (), b, [CallServeOnce, LogInterrupt])
      else
        (let evs = CallServeOnce # (if served = Raised then [LogException] else []) @
                   [LogReconnecting (reconnection_delay b) (reconnection_count b)]
         in case delay_reconnect b slept of
              (Inl e, b1, evs1) \<Rightarrow>
                (if e = KeyboardInterrupt then Some (Inr (), b1, evs @ evs1 @ [LogInterrupt])
                 else Some (Inl e, b1, evs @ evs1))
            | (Inr u, b1, evs1) \<Rightarrow>
                map_option (\<lambda>(r, b2, evs2). (r, b2, evs @ evs1 @ evs2))
                  (serve_loop (b1\<lparr>reconnection_count := reconnection_count b1 + 1\<rparr>) script)))"

definition serve_forever ::
  "Backend \<Rightarrow> (serve_outcome \<times> sleep_outcome) list \<Rightarrow> ((exn + unit) \<times> Backend \<times> event list) option" where
  "serve_forever b script =
     (case serve_loop b script of
        None \<Rightarrow> None
      | Some (Inl e, b1, evs) \<Rightarrow> Some (Inl e, b1, evs)
      | Some (Inr u, b1, evs) \<Rightarrow> Some (Inr (), b1, evs @ [LogTriggerShutdown, CallShutdown]))"

subsection \<open>Reading a run\<close>

text \<open>The delay and the count of each "Reconnecting in ..." record, and the sleeps.\<close>

fun logged_reconnections :: "event list \<Rightarrow> (rat \<times> int) list" where
  "logged_reconnections [] = []"
| "logged_reconnections (LogReconnecting d c # evs) = (d, c) # logged_reconnections evs"
| "logged_reconnections (e # evs) = logged_reconnections evs"

fun sleeps :: "event list \<Rightarrow> rat list" where
  "sleeps [] = []"
| "sleeps (Sleep d # evs) = d # sleeps evs"
| "sleeps (e # evs) = sleeps evs"

text \<open>The delay and the count a run ends with, and the delays it logged.\<close>

definition final_delay_count ::
  "((exn + unit) \<times> Backend \<times> event list) option \<Rightarrow> (rat \<times> int) option" where
  "final_delay_count run =
     map_option (\<lambda>(r, b, evs). (reconnection_delay b, reconnection_count b)) run"

definition logged_delays ::
  "((exn + unit) \<times> Backend \<times> event list) option \<Rightarrow> rat list option" where
  "logged_delays run = map_option (\<lambda>(r, b, evs). map fst (logged_reconnections evs)) run"

text \<open>Rounding to two decimals, for the figures the specification quotes.\<close>

definition round2 :: "rat \<Rightarrow> rat" where
  "round2 q = of_int (round (q * 100)) / 100"

text \<open>
  A script of failed cycles with the jitter ignored (every draw 0): \<^verbatim>\<open>serve_once\<close> raises
  (\<open>True\<close>) or returns a falsy value (\<open>False\<close>), and the sleep completes.
\<close>

definition failed_cycles :: "bool list \<Rightarrow> (serve_outcome \<times> sleep_outcome) list" where
  "failed_cycles kinds =
     map (\<lambda>raises. (if raises then Raised else Returned False, Slept 0)) kinds"

text \<open>An iteration that leaves the loop.\<close>

fun exits :: "serve_outcome \<times> sleep_outcome \<Rightarrow> bool" where
  "exits (served, slept) =
     (served = Returned True \<or> served = Interrupted \<or> slept = SleepInterrupted)"


section \<open>Stream transitions\<close>

text \<open>
  C4. For every stream, whatever its status: \<open>accept\<close> succeeds exactly when the status
  is pending and then moves it to in progress; \<open>reject\<close> succeeds exactly when the status
  is pending and then moves it to rejected; \<open>success\<close> succeeds exactly when the status
  is in progress and then moves it to success. In every other status the call raises the
  invalid-state \<open>ValueError\<close> and the stream is left as it was.
\<close>

theorem stream_guarded_transitions:
  "(fst (accept s) = Inr () \<longleftrightarrow> status s = STREAM_WAITING_TO_START) \<and>
   (status s = STREAM_WAITING_TO_START \<longrightarrow>
      snd (accept s) = s\<lparr>status := STREAM_TRANSFER_IN_PROGRESS\<rparr>) \<and>
   (status s \<noteq> STREAM_WAITING_TO_START \<longrightarrow>
      accept s = (Inl (ValueError ''Invalid state, the stream is not pending.''), s)) \<and>
   (fst (reject s) = Inr () \<longleftrightarrow> status s = STREAM_WAITING_TO_START) \<and>
   (status s = STREAM_WAITING_TO_START \<longrightarrow>
      snd (reject s) = s\<lparr>status := STREAM_REJECTED\<rparr>) \<and>
   (status s \<noteq> STREAM_WAITING_TO_START \<longrightarrow>
      reject s = (Inl (ValueError ''Invalid state, the stream is not pending.''), s)) \<and>
   (fst (success s) = Inr () \<longleftrightarrow> status s = STREAM_TRANSFER_IN_PROGRESS) \<and>
   (status s = STREAM_TRANSFER_IN_PROGRESS \<longrightarrow>
      snd (success s) = s\<lparr>status := STREAM_SUCCESSFULLY_TRANSFERED\<rparr>) \<and>
   (status s \<noteq> STREAM_TRANSFER_IN_PROGRESS \<longrightarrow>
      success s = (Inl (ValueError ''Invalid state, the stream is not in progress.''), s))"
  by (simp add: accept_def reject_def success_def)

text \<open>
  C4 on two streams: a pending one (where \<open>accept\<close> and \<open>reject\<close> go through and
  \<open>success\<close> raises) and the same stream once accepted (where only \<open>success\<close>
  goes through).
\<close>

theorem stream_guarded_transitions_witness:
  "status (Stream_init None [1, 2] None (Some 100) None) = STREAM_WAITING_TO_START \<and>
   status (Stream_init None [1, 2] None (Some 100) None) \<noteq> STREAM_TRANSFER_IN_PROGRESS \<and>
   fst (accept (Stream_init None [1, 2] None (Some 100) None)) = Inr () \<and>
   status (snd (accept (Stream_init None [1, 2] None (Some 100) None))) = ''in progress'' \<and>
   status (snd (reject (Stream_init None [1, 2] None (Some 100) None))) = ''rejected'' \<and>
   success (Stream_init None [1, 2] None (Some 100) None) =
     (Inl (ValueError ''Invalid state, the stream is not in progress.''),
      Stream_init None [1, 2] None (Some 100) None) \<and>
   status (snd (accept (Stream_init None [1, 2] None (Some 100) None)))
     \<noteq> STREAM_WAITING_TO_START \<and>
   accept (snd (accept (Stream_init None [1, 2] None (Some 100) None))) =
     (Inl (ValueError ''Invalid state, the stream is not pending.''),
      snd (accept (Stream_init None [1, 2] None (Some 100) None))) \<and>
   reject (snd (accept (Stream_init None [1, 2] None (Some 100) None))) =
     (Inl (ValueError ''Invalid state, the stream is not pending.''),
      snd (accept (Stream_init None [1, 2] None (Some 100) None))) \<and>
   status (snd (success (snd (accept (Stream_init None [1, 2] None (Some 100) None)))))
     = ''success''"
proof -
  let ?s0 = "Stream_init None [1, 2] None (Some 100) None"
  let ?s1 = "snd (accept ?s0)"
  have p0: "status ?s0 = STREAM_WAITING_TO_START"
    by (simp add: Stream_init_def)
  have q0: "status ?s0 \<noteq> STREAM_TRANSFER_IN_PROGRESS"
    by (simp add: Stream_init_def stream_constants)
  have s1: "?s1 = ?s0\<lparr>status := STREAM_TRANSFER_IN_PROGRESS\<rparr>"
    using stream_guarded_transitions [of ?s0] p0 by blast
  have p1: "status ?s1 \<noteq> STREAM_WAITING_TO_START"
    by (subst s1) (simp add: stream_constants)
  have q1: "status ?s1 = STREAM_TRANSFER_IN_PROGRESS"
    by (subst s1) simp
  note at0 = stream_guarded_transitions [of ?s0]
  note at1 = stream_guarded_transitions [of ?s1]
  have a: "fst (accept ?s0) = Inr ()" using at0 p0 by blast
  have b: "status ?s1 = ''in progress''" using q1 by (simp add: stream_constants)
  have c: "status (snd (reject ?s0)) = ''rejected''"
    using at0 p0 by (simp add: stream_constants)
  have d: "success ?s0 = (Inl (ValueError ''Invalid state, the stream is not in progress.''), ?s0)"
    using at0 q0 by blast
  have e: "accept ?s1 = (Inl (ValueError ''Invalid state, the stream is not pending.''), ?s1)"
    using at1 p1 by blast
  have f: "reject ?s1 = (Inl (ValueError ''Invalid state, the stream is not pending.''), ?s1)"
    using at1 p1 by blast
  have g: "status (snd (success ?s1)) = ''success''"
    using at1 q1 by (simp add: stream_constants)
  show ?thesis using p0 q0 a b c d p1 e f g by blast
qed

text \<open>
  C5. For every stream, whatever its status, \<open>error\<close> returns without raising and
  leaves the status at error and the reason at the one given, or at \<open>''unknown''\<close> when
  the caller gives none; nothing else of the stream changes.
\<close>

theorem stream_error_always_succeeds:
  "fst (error s r) = Inr () \<and>
   status (snd (error s r)) = STREAM_ERROR \<and>
   reason (snd (error s (Some given))) = given \<and>
   reason (snd (error s None)) = ''unknown'' \<and>
   snd (error s r) =
     s\<lparr>status := ''error'',
       reason := (case r of None \<Rightarrow> ''unknown'' | Some given \<Rightarrow> given)\<rparr>"
  by (cases r) (simp_all add: error_def stream_constants)

text \<open>
  C8, as the code has it. The transferred-bytes field starts at 0; \<open>ack_data\<close> stores
  the length it is given, whatever the status and whatever the field held, and does not
  touch the status; \<open>accept\<close>, \<open>reject\<close>, \<open>success\<close> and \<open>error\<close> leave the field
  alone.
\<close>

theorem ack_data_sets_transfered:
  "transfered (Stream_init ident src nm sz ty) = 0 \<and>
   ack_data s len = (Inr (), s\<lparr>transfered := len\<rparr>) \<and>
   transfered (snd (ack_data s len)) = len \<and>
   status (snd (ack_data s len)) = status s \<and>
   transfered (snd (accept s)) = transfered s \<and>
   transfered (snd (reject s)) = transfered s \<and>
   transfered (snd (success s)) = transfered s \<and>
   transfered (snd (error s r)) = transfered s"
  by (simp add: Stream_init_def ack_data_def accept_def reject_def success_def error_def)

text \<open>
  C8 as stated fails: the field is not monotonic. Acknowledging 50 bytes and then 10
  takes it from 50 down to 10.
\<close>

theorem transfered_not_monotonic:
  "transfered (snd (ack_data (Stream_init None [] None (Some 100) None) 50)) = 50 \<and>
   transfered (snd (ack_data (snd (ack_data (Stream_init None [] None (Some 100) None) 50)) 10))
     = 10 \<and>
   \<not> (\<forall>s len. transfered s \<le> transfered (snd (ack_data s len)))"
proof -
  let ?s = "snd (ack_data (Stream_init None [] None (Some 100) None) 50)"
  have a: "transfered ?s = 50" by (simp add: ack_data_def)
  have b: "transfered (snd (ack_data ?s 10)) = 10" by (simp add: ack_data_def)
  have "\<not> transfered ?s \<le> transfered (snd (ack_data ?s 10))"
    by (simp add: ack_data_def)
  then have c: "\<not> (\<forall>s len. transfered s \<le> transfered (snd (ack_data s len)))" by blast
  show ?thesis using a b c by blast
qed

section \<open>Messages and presences\<close>

text \<open>
  No class of the file derives from \<open>Person\<close> or from \<open>Room\<close>, so an object is an
  instance of \<open>Person\<close> (of \<open>Room\<close>) exactly when its class lists it.
\<close>

lemma isinstance_Person_Room:
  "isinstance (Some (Instance derived_from payload)) Person = (Person \<in> set derived_from)"
  "isinstance (Some (Instance derived_from payload)) Room = (Room \<in> set derived_from)"
proof -
  have p: "issubclass c Person = (c = Person)" for c
    by (cases c) (simp_all add: issubclass_def)
  have r: "issubclass c Room = (c = Room)" for c
    by (cases c) (simp_all add: issubclass_def)
  show "isinstance (Some (Instance derived_from payload)) Person = (Person \<in> set derived_from)"
    by (simp add: p list_ex_iff)
  show "isinstance (Some (Instance derived_from payload)) Room = (Room \<in> set derived_from)"
    by (simp add: r list_ex_iff)
qed

text \<open>
  C6, as the code has it. \<open>is_direct\<close> holds exactly when \<open>to\<close> is an instance of
  \<open>Person\<close> and \<open>is_group\<close> exactly when it is an instance of \<open>Room\<close>, whatever
  else its class derives from. So a recipient whose class derives from \<open>Room\<close> alone
  makes the message group and not direct, one whose class derives from \<open>Person\<close> alone
  makes it direct and not group, and with \<open>to\<close> unset it is neither. A message is both
  exactly when the recipient's class derives from \<open>Person\<close> and from \<open>Room\<close>.
\<close>

theorem is_direct_is_group_follow_the_bases:
  "is_direct (set_to m (Some (Instance derived_from payload))) = (Person \<in> set derived_from) \<and>
   is_group (set_to m (Some (Instance derived_from payload))) = (Room \<in> set derived_from) \<and>
   is_group (set_to m (Some (Instance [Room] payload))) \<and>
   \<not> is_direct (set_to m (Some (Instance [Room] payload))) \<and>
   is_direct (set_to m (Some (Instance [Person] payload))) \<and>
   \<not> is_group (set_to m (Some (Instance [Person] payload))) \<and>
   \<not> is_direct (set_to m None) \<and> \<not> is_group (set_to m None) \<and>
   (is_direct m \<and> is_group m) =
     (\<exists>bs p. to m = Some (Instance bs p) \<and> Person \<in> set bs \<and> Room \<in> set bs)"
proof -
  have both: "(is_direct m \<and> is_group m) =
     (\<exists>bs p. to m = Some (Instance bs p) \<and> Person \<in> set bs \<and> Room \<in> set bs)"
  proof (cases "to m")
    case None
    then show ?thesis by (simp add: is_direct_def is_group_def)
  next
    case (Some obj)
    then show ?thesis
      by (cases obj)
        (simp add: is_direct_def is_group_def isinstance_Person_Room del: isinstance.simps(2))
  qed
  show ?thesis
    using both
    by (simp add: is_direct_def is_group_def set_to_def isinstance_Person_Room
        del: isinstance.simps(2))
qed

text \<open>
  C6 as stated fails: a recipient whose class derives from \<open>Room\<close> and from
  \<open>Person\<close> is a room, and the message to it is group and direct at once.
\<close>

theorem person_and_room_is_direct_and_group:
  "isinstance (Some (Instance [Person, Room] ''muc'')) Room \<and>
   is_group (set_to \<lparr> body = ''hi'', frm = None, to = None, delayed = False, extras = 0 \<rparr>
              (Some (Instance [Person, Room] ''muc''))) \<and>
   is_direct (set_to \<lparr> body = ''hi'', frm = None, to = None, delayed = False, extras = 0 \<rparr>
              (Some (Instance [Person, Room] ''muc'')))"
  by (simp add: is_direct_def is_group_def set_to_def issubclass_def)

text \<open>
  C10, as the code has it. \<open>RoomOccupant\<close> derives from neither \<open>Person\<close> nor
  \<open>Room\<close>, so a recipient whose class derives from \<open>RoomOccupant\<close> alone makes the
  message neither direct nor group. For an occupant whose class derives from more, the
  message is direct exactly when the class also derives from \<open>Person\<close>, and group
  exactly when it also derives from \<open>Room\<close>.
\<close>

theorem room_occupant_classification:
  "\<not> is_direct (set_to m (Some (Instance [RoomOccupant] payload))) \<and>
   \<not> is_group (set_to m (Some (Instance [RoomOccupant] payload))) \<and>
   \<not> issubclass RoomOccupant Person \<and> \<not> issubclass RoomOccupant Room \<and>
   isinstance (Some (Instance (RoomOccupant # others) payload)) RoomOccupant \<and>
   is_direct (set_to m (Some (Instance (RoomOccupant # others) payload))) =
     (Person \<in> set others) \<and>
   is_group (set_to m (Some (Instance (RoomOccupant # others) payload))) =
     (Room \<in> set others)"
  by (simp add: is_direct_def is_group_def set_to_def isinstance_Person_Room
        del: isinstance.simps(2)) (simp add: issubclass_def)

text \<open>
  C10 as stated fails: an occupant whose class derives from \<open>Person\<close> and
  \<open>RoomOccupant\<close> is a room occupant, and the message to it is direct.
\<close>

theorem occupant_deriving_from_person_is_direct:
  "isinstance (Some (Instance [Person, RoomOccupant] ''gbin@room'')) RoomOccupant \<and>
   is_direct (set_to \<lparr> body = ''hi'', frm = None, to = None, delayed = False, extras = 0 \<rparr>
               (Some (Instance [Person, RoomOccupant] ''gbin@room'')))"
  by (simp add: is_direct_def set_to_def issubclass_def)

text \<open>
  C7. Constructing a presence raises a \<open>ValueError\<close> exactly when the identifier is
  \<open>None\<close> or both the status and the message are \<open>None\<close>; it raises nothing else;
  with an identifier and a status or a message it returns the presence holding the three
  arguments.
\<close>

theorem presence_construction:
  "((\<exists>text. Presence_init ident st msg = Inl (ValueError text)) \<longleftrightarrow>
      (ident = None \<or> (st = None \<and> msg = None))) \<and>
   ((\<exists>p. Presence_init ident st msg = Inr p) \<longleftrightarrow>
      (ident \<noteq> None \<and> (st \<noteq> None \<or> msg \<noteq> None))) \<and>
   (\<forall>e. Presence_init ident st msg = Inl e \<longrightarrow> (\<exists>text. e = ValueError text)) \<and>
   (\<forall>p. Presence_init ident st msg = Inr p \<longrightarrow>
      p = \<lparr> presence_identifier = ident, presence_status = st, presence_message = msg \<rparr>)"
  by (auto simp: Presence_init_def)

text \<open>
  C7 on four constructions: an identifier with neither status nor message, no identifier,
  an identifier with a message only, an identifier with a status only.
\<close>

theorem presence_construction_witness:
  "(\<exists>text. Presence_init (Some (Instance [Person] ''gbin'')) None None = Inl (ValueError text)) \<and>
   (\<exists>text. Presence_init None (Some ''online'') None = Inl (ValueError text)) \<and>
   Presence_init (Some (Instance [Person] ''gbin'')) None (Some ''BRB'') =
     Inr \<lparr> presence_identifier = Some (Instance [Person] ''gbin''), presence_status = None,
           presence_message = Some ''BRB'' \<rparr> \<and>
   Presence_init (Some (Instance [Person] ''gbin'')) (Some ''away'') None =
     Inr \<lparr> presence_identifier = Some (Instance [Person] ''gbin''),
           presence_status = Some ''away'', presence_message = None \<rparr>"
proof -
  let ?i = "Some (Instance [Person] ''gbin'')"
  have a: "\<exists>text. Presence_init ?i None None = Inl (ValueError text)"
    using presence_construction [of ?i None None] by simp
  have b: "\<exists>text. Presence_init None (Some ''online'') None = Inl (ValueError text)"
    using presence_construction [of None "Some ''online''" None] by simp
  have c: "\<exists>p. Presence_init ?i None (Some ''BRB'') = Inr p"
    using presence_construction [of ?i None "Some ''BRB''"] by simp
  have c': "Presence_init ?i None (Some ''BRB'') =
     Inr \<lparr> presence_identifier = ?i, presence_status = None, presence_message = Some ''BRB'' \<rparr>"
    using c presence_construction [of ?i None "Some ''BRB''"] by blast
  have d: "\<exists>p. Presence_init ?i (Some ''away'') None = Inr p"
    using presence_construction [of ?i "Some ''away''" None] by simp
  have d': "Presence_init ?i (Some ''away'') None =
     Inr \<lparr> presence_identifier = ?i, presence_status = Some ''away'', presence_message = None \<rparr>"
    using d presence_construction [of ?i "Some ''away''" None] by blast
  show ?thesis using a b c' d' by blast
qed

section \<open>Binary64 rounding\<close>

text \<open>\<open>floor_log2\<close> finds the binade of a positive number.\<close>

lemma pow2_diff:
  "pow2 (int a - int b) = 2 ^ a / 2 ^ b"
proof (cases "b \<le> a")
  case True
  then have "pow2 (int a - int b) = 2 ^ (a - b)"
    by (simp add: pow2_def nat_diff_distrib' flip: of_nat_diff)
  also have "\<dots> = (2::rat) ^ a / 2 ^ b" using True by (simp add: power_diff)
  finally show ?thesis .
next
  case False
  then have ba: "a < b" by simp
  then have "pow2 (int a - int b) = 1 / 2 ^ (b - a)"
    by (simp add: pow2_def nat_diff_distrib' flip: of_nat_diff)
  also have "\<dots> = (2::rat) ^ a / 2 ^ b" using ba
    by (simp add: power_diff field_simps flip: power_add)
  finally show ?thesis .
qed

lemma floor_log2_bounds:
  assumes "0 < x"
  shows "pow2 (floor_log2 x) \<le> x \<and> x < pow2 (floor_log2 x + 1)"
proof -
  obtain p q where pq: "quotient_of x = (p, q)" by (cases "quotient_of x")
  have q: "0 < q" using pq by (rule quotient_of_denom_pos)
  have x: "x = of_int p / of_int q" using pq by (rule quotient_of_div)
  have p: "0 < p" using assms q x by (simp add: zero_less_divide_iff)
  define a where "a = nat (bitlen p)"
  define b where "b = nat (bitlen q)"
  have bp: "2 ^ nat (bitlen p - 1) \<le> p \<and> p < 2 ^ nat (bitlen p)"
    using bitlen_bounds [OF p] .
  have bq: "2 ^ nat (bitlen q - 1) \<le> q \<and> q < 2 ^ nat (bitlen q)"
    using bitlen_bounds [OF q] .
  have "floorlog 2 (nat p) \<noteq> 0" "floorlog 2 (nat q) \<noteq> 0"
    using p q by (simp_all add: floorlog_eq_zero_iff)
  then have a1: "1 \<le> a" "bitlen p = int a" "nat (bitlen p - 1) = a - 1"
    and b1: "1 \<le> b" "bitlen q = int b" "nat (bitlen q - 1) = b - 1"
    unfolding a_def b_def by (simp_all add: bitlen_def nat_diff_distrib)
  have ints: "2 ^ (a - 1) \<le> p" "p < 2 ^ a" "2 ^ (b - 1) \<le> q" "q < 2 ^ b"
    using bp bq a1(3) b1(3) by (simp_all only: a1(2) b1(2) nat_int)
  have plo: "(2::rat) ^ (a - 1) \<le> of_int p"
  proof -
    have "(of_int (2 ^ (a - 1)) :: rat) \<le> of_int p" using ints(1) by (simp only: of_int_le_iff)
    then show ?thesis by simp
  qed
  have phi: "of_int p < (2::rat) ^ a"
  proof -
    have "(of_int p :: rat) < of_int (2 ^ a)" using ints(2) by (simp only: of_int_less_iff)
    then show ?thesis by simp
  qed
  have qlo: "(2::rat) ^ (b - 1) \<le> of_int q"
  proof -
    have "(of_int (2 ^ (b - 1)) :: rat) \<le> of_int q" using ints(3) by (simp only: of_int_le_iff)
    then show ?thesis by simp
  qed
  have qhi: "of_int q \<le> (2::rat) ^ b"
  proof -
    have "(of_int q :: rat) < of_int (2 ^ b)" using ints(4) by (simp only: of_int_less_iff)
    then show ?thesis by simp
  qed
  have upper: "x < pow2 (int a - int b + 1)"
  proof -
    have "x < 2 ^ a / 2 ^ (b - 1)"
      unfolding x by (rule frac_less) (use p phi qlo in simp_all)
    also have "\<dots> = pow2 (int a - int (b - 1))" by (simp only: pow2_diff)
    also have "int a - int (b - 1) = int a - int b + 1" using b1(1) by simp
    finally show ?thesis .
  qed
  have lower: "pow2 (int a - int b - 1) \<le> x"
  proof -
    have "pow2 (int (a - 1) - int b) = 2 ^ (a - 1) / 2 ^ b" by (simp only: pow2_diff)
    also have "\<dots> \<le> x"
      unfolding x by (rule frac_le) (use p q plo qhi in simp_all)
    finally have "pow2 (int (a - 1) - int b) \<le> x" .
    moreover have "int (a - 1) - int b = int a - int b - 1" using a1(1) by simp
    ultimately show ?thesis by (simp only:)
  qed
  show ?thesis
    using upper lower
    by (auto simp: floor_log2_def pq a1(2) b1(2) not_le Let_def)
qed


text \<open>
  \<open>binary64 x\<close> is an integer multiple of the spacing of the floats around \<open>x\<close> and
  lies within half that spacing of \<open>x\<close>: it is a nearest float (ties go to the even
  multiple, by \<open>round_half_even\<close>).
\<close>

lemma pow2_pos: "0 < pow2 e"
  by (simp add: pow2_def)

lemma round_half_even_nearest: "\<bar>of_int (round_half_even y) - y\<bar> \<le> 1 / 2"
proof -
  have "of_int \<lfloor>y\<rfloor> \<le> y" "y < of_int \<lfloor>y\<rfloor> + 1" by linarith+
  then show ?thesis by (auto simp: round_half_even_def Let_def)
qed

lemma binary64_nearest:
  assumes "x \<noteq> 0"
  shows "\<exists>m. binary64 x = of_int m * pow2 (max (floor_log2 \<bar>x\<bar> - 52) (- 1074)) \<and>
             \<bar>binary64 x - x\<bar> \<le> pow2 (max (floor_log2 \<bar>x\<bar> - 52) (- 1074)) / 2"
proof -
  let ?e = "max (floor_log2 \<bar>x\<bar> - 52) (- 1074)"
  let ?m = "round_half_even (x / pow2 ?e)"
  have b: "binary64 x = of_int ?m * pow2 ?e"
    using assms by (simp add: binary64_def Let_def)
  have "binary64 x - x = (of_int ?m - x / pow2 ?e) * pow2 ?e"
    using pow2_pos [of ?e] by (simp add: b field_simps)
  then have "\<bar>binary64 x - x\<bar> = \<bar>of_int ?m - x / pow2 ?e\<bar> * pow2 ?e"
    using pow2_pos [of ?e] by (simp add: abs_mult)
  also have "\<dots> \<le> (1 / 2) * pow2 ?e"
    by (rule mult_right_mono [OF round_half_even_nearest]) (use pow2_pos [of ?e] in simp)
  finally have "\<bar>binary64 x - x\<bar> \<le> pow2 ?e / 2" by simp
  with b show ?thesis by blast
qed


section \<open>Reconnection back-off\<close>

text \<open>
  With the jitter ignored the delay only takes the values \<open>(7 / 4) ^ n\<close> up to
  \<open>n = 12\<close>, and \<open>600\<close> and \<open>1050\<close>. Each is a binary64 float, so no rounding
  takes place on them.
\<close>

lemma binary64_exact_values:
  "\<forall>n \<in> set [0..<13]. binary64 ((7 / 4) ^ n) = (7 / 4) ^ n"
  "binary64 600 = 600" "binary64 1050 = 1050" "binary64 3 = 3"
  by code_simp+

lemma binary64_small:
  "binary64 (7 / 4) = 7 / 4" "binary64 (49 / 16) = 49 / 16" "binary64 (343 / 64) = 343 / 64"
  by code_simp+

lemma binary64_power_7_4:
  assumes "n \<le> 12"
  shows "binary64 ((7 / 4) ^ n) = (7 / 4) ^ n"
proof -
  have "n \<in> set [0..<13]" using assms by simp
  then show ?thesis using binary64_exact_values(1) by blast
qed

lemma binary64_zero: "binary64 0 = 0"
  by (simp add: binary64_def)

lemma uniform_no_jitter: "uniform 0 3 0 = 0"
  by (simp add: uniform_def binary64_zero)

text \<open>
  Rounding at work: a tenth is not a binary fraction; and from delay 1 with the largest
  draw, \<open>1 - 2 ^ - 53\<close>, the jitter rounds to \<open>3 - 2 ^ - 51\<close> and the sum
  \<open>1.75 + jitter\<close>, half-way between two floats, rounds to the even one, 4.75.
\<close>

lemma binary64_rounds_ties_to_even:
  "binary64 (1 / 10) = 3602879701896397 / 2 ^ 55"
  "uniform 0 3 (1 - 1 / 2 ^ 53) = 3 - 1 / 2 ^ 51"
  "binary64 (7 / 4 + uniform 0 3 (1 - 1 / 2 ^ 53)) = 19 / 4"
  by code_simp+

lemma delay_reconnect_default:
  "delay_reconnect ((Backend_init a)\<lparr>reconnection_count := c, reconnection_delay := d\<rparr>) (Slept u) =
     (Inr (),
      (Backend_init a)\<lparr>reconnection_count := c,
                        reconnection_delay :=
                          binary64 (min (binary64 (d * (7 / 4))) 600 + uniform 0 3 u)\<rparr>,
      [Sleep d])"
  by (simp add: Backend_init_def Let_def min_def)

text \<open>From delay 1 with the largest draw the program stores 4.75.\<close>

lemma delay_reconnect_largest_draw:
  "delay_reconnect (Backend_init a) (Slept (1 - 1 / 2 ^ 53)) =
     (Inr (), (Backend_init a)\<lparr>reconnection_delay := 19 / 4\<rparr>, [Sleep 1])"
proof -
  have init: "Backend_init a = (Backend_init a)\<lparr>reconnection_count := 0, reconnection_delay := 1\<rparr>"
    by (simp add: Backend_init_def)
  have pre: "min (binary64 (1 * (7 / 4))) (600::rat) = 7 / 4"
    by (simp add: binary64_small)
  have "delay_reconnect (Backend_init a) (Slept (1 - 1 / 2 ^ 53)) =
     (Inr (),
      (Backend_init a)\<lparr>reconnection_count := 0,
                        reconnection_delay :=
                          binary64 (min (binary64 (1 * (7 / 4))) 600
                                    + uniform 0 3 (1 - 1 / 2 ^ 53))\<rparr>,
      [Sleep 1])"
    by (subst init) (rule delay_reconnect_default)
  also have "\<dots> = (Inr (), (Backend_init a)\<lparr>reconnection_delay := 19 / 4\<rparr>, [Sleep 1])"
    unfolding pre binary64_rounds_ties_to_even(3) by (simp add: Backend_init_def)
  finally show ?thesis .
qed

lemma below_cap:
  assumes "k < 12"
  shows "(7 / 4 :: rat) ^ k < 600"
proof -
  have "(7 / 4 :: rat) ^ k \<le> (7 / 4) ^ 11"
    by (rule power_increasing) (use assms in simp_all)
  also have "\<dots> < 600" by (simp add: power_divide)
  finally show ?thesis .
qed

lemma above_cap:
  assumes "12 \<le> k"
  shows "(600 :: rat) < (7 / 4) ^ k"
proof -
  have "(600::rat) < (7 / 4) ^ 12" by (simp add: power_divide)
  also have "\<dots> \<le> (7 / 4) ^ k" by (rule power_increasing) (use assms in simp_all)
  finally show ?thesis .
qed

lemma delay_reconnect_jitter_free:
  assumes "reconnection_multiplier b = 7 / 4" "reconnection_max_delay b = 600"
    "reconnection_jitter b = (0, 3)" "reconnection_delay b = min ((7 / 4) ^ k) 600"
  shows "delay_reconnect b (Slept 0) =
     (Inr (), b\<lparr>reconnection_delay := min ((7 / 4) ^ Suc k) 600\<rparr>,
      [Sleep (reconnection_delay b)])"
proof -
  let ?d = "min ((7 / 4) ^ k) (600::rat)"
  have unfolded: "delay_reconnect b (Slept 0) =
     (Inr (),
      b\<lparr>reconnection_delay :=
           binary64 ((if binary64 (?d * (7 / 4)) > 600 then 600
                      else binary64 (?d * (7 / 4))) + uniform 0 3 0)\<rparr>,
      [Sleep (reconnection_delay b)])"
    by (simp only: delay_reconnect.simps Let_def assms(1-3) assms(4)[symmetric] fst_conv snd_conv)
  have rounded: "binary64 ((if binary64 (?d * (7 / 4)) > 600 then 600
                      else binary64 (?d * (7 / 4))) + uniform 0 3 0)
                = min ((7 / 4) ^ Suc k) 600"
  proof (cases "k < 12")
    case True
    then have d: "?d = (7 / 4) ^ k" using below_cap [of k] by simp
    have m: "binary64 (?d * (7 / 4)) = (7 / 4) ^ Suc k"
      using binary64_power_7_4 [of "Suc k"] True by (simp add: d mult.commute)
    show ?thesis
    proof (cases "(600::rat) < (7 / 4) ^ Suc k")
      case True
      then have "min ((7 / 4) ^ Suc k) (600::rat) = 600" by simp
      moreover have "binary64 ((if binary64 (?d * (7 / 4)) > 600 then 600
                      else binary64 (?d * (7 / 4))) + uniform 0 3 0) = 600"
        unfolding m uniform_no_jitter using True by (simp add: binary64_exact_values)
      ultimately show ?thesis by simp
    next
      case False
      then have "min ((7 / 4) ^ Suc k) (600::rat) = (7 / 4) ^ Suc k" by simp
      moreover have "binary64 ((if binary64 (?d * (7 / 4)) > 600 then 600
                      else binary64 (?d * (7 / 4))) + uniform 0 3 0) = (7 / 4) ^ Suc k"
        unfolding m uniform_no_jitter
        using False binary64_power_7_4 [of "Suc k"] \<open>k < 12\<close> by simp
      ultimately show ?thesis by simp
    qed
  next
    case False
    then have k: "12 \<le> k" "12 \<le> Suc k" by simp_all
    have d: "?d = 600" using above_cap [OF k(1)] by simp
    have m: "binary64 (?d * (7 / 4)) = 1050"
      by (simp only: d) (simp add: binary64_exact_values)
    have "min ((7 / 4) ^ Suc k) (600::rat) = 600" using above_cap [OF k(2)] by simp
    moreover have "binary64 ((if binary64 (?d * (7 / 4)) > 600 then 600
                      else binary64 (?d * (7 / 4))) + uniform 0 3 0) = 600"
      unfolding m uniform_no_jitter by (simp add: binary64_exact_values)
    ultimately show ?thesis by simp
  qed
  show ?thesis unfolding unfolded rounded ..
qed

lemma failed_cycle:
  assumes "reconnection_multiplier b = 7 / 4" "reconnection_max_delay b = 600"
    "reconnection_jitter b = (0, 3)" "reconnection_delay b = min ((7 / 4) ^ k) 600"
  shows "serve_loop b ((if raises then Raised else Returned False, Slept 0) # script) =
     map_option (\<lambda>(r, b2, evs2).
         (r, b2, (CallServeOnce # (if raises then [LogException] else []) @
                  [LogReconnecting (reconnection_delay b) (reconnection_count b),
                   Sleep (reconnection_delay b)]) @ evs2))
       (serve_loop (b\<lparr>reconnection_delay := min ((7 / 4) ^ Suc k) 600,
                      reconnection_count := reconnection_count b + 1\<rparr>) script)"
  by (simp add: delay_reconnect_jitter_free [OF assms] del: delay_reconnect.simps power_Suc)

lemma final_delay_count_more_events:
  "final_delay_count (map_option (\<lambda>(r, b2, evs2). (r, b2, f evs2)) run) =
   final_delay_count run"
  by (cases run) (auto simp: final_delay_count_def)

lemma failures_then:
  assumes "reconnection_multiplier b = 7 / 4" "reconnection_max_delay b = 600"
    "reconnection_jitter b = (0, 3)" "reconnection_delay b = min ((7 / 4) ^ k) 600"
  shows "final_delay_count (serve_loop b (failed_cycles kinds @ script)) =
     final_delay_count (serve_loop (b\<lparr>reconnection_delay := min ((7 / 4) ^ (k + length kinds)) 600,
                      reconnection_count := reconnection_count b + int (length kinds)\<rparr>) script)"
  using assms
proof (induction kinds arbitrary: b k)
  case Nil
  show ?case by (simp add: failed_cycles_def Nil.prems(4)[symmetric])
next
  case (Cons raises kinds)
  let ?b = "b\<lparr>reconnection_delay := min ((7 / 4) ^ Suc k) 600,
                      reconnection_count := reconnection_count b + 1\<rparr>"
  have split: "failed_cycles (raises # kinds) @ script =
      (if raises then Raised else Returned False, Slept 0) # (failed_cycles kinds @ script)"
    by (simp add: failed_cycles_def)
  have "final_delay_count (serve_loop b (failed_cycles (raises # kinds) @ script)) =
        final_delay_count (serve_loop ?b (failed_cycles kinds @ script))"
    unfolding split failed_cycle [OF Cons.prems]
    by (rule final_delay_count_more_events)
  also have "\<dots> = final_delay_count (serve_loop (?b\<lparr>reconnection_delay := min ((7 / 4) ^ (Suc k + length kinds)) 600,
                      reconnection_count := reconnection_count ?b + int (length kinds)\<rparr>) script)"
    by (rule Cons.IH) (use Cons.prems in simp_all)
  finally show ?case by (simp add: add.assoc)
qed

lemma after_failures:
  "final_delay_count (serve_forever (Backend_init a)
       (failed_cycles kinds @ [(Returned True, slept)])) =
     Some (min ((7 / 4) ^ length kinds) 600, int (length kinds))"
proof -
  let ?b = "Backend_init a"
  let ?n = "length kinds"
  have "final_delay_count (serve_loop ?b (failed_cycles kinds @ [(Returned True, slept)]))
     = final_delay_count (serve_loop (?b\<lparr>reconnection_delay := min ((7 / 4) ^ (0 + ?n)) 600,
                      reconnection_count := reconnection_count ?b + int ?n\<rparr>) [(Returned True, slept)])"
    by (rule failures_then) (simp_all add: Backend_init_def)
  also have "\<dots> = Some (min ((7 / 4) ^ ?n) 600, int ?n)"
    by (simp add: final_delay_count_def Backend_init_def)
  finally have loop: "final_delay_count (serve_loop ?b (failed_cycles kinds @ [(Returned True, slept)]))
     = Some (min ((7 / 4) ^ ?n) 600, int ?n)" .
  show ?thesis using loop
    by (auto simp: serve_forever_def final_delay_count_def split: option.splits sum.splits)
qed

text \<open>
  C1. A new back-end has delay 1 and count 0. One completed \<^verbatim>\<open>_delay_reconnect\<close> turns the
  delay \<open>d\<close> into \<open>min (d * 1.75) 600\<close> plus the jitter \<open>uniform 0 3 u\<close>, in float
  arithmetic. With the jitter ignored (every draw 0, so the jitter is 0), a run of \<open>n\<close>
  failed cycles, each a raise or a falsy return of \<^verbatim>\<open>serve_once\<close>, leaves the delay at
  \<open>min (1 * 1.75 ^ n) 600\<close> and the count at \<open>n\<close>; from 12 failures on the delay is
  600. \<open>reset_reconnection_count\<close> puts the delay back to 1 and the count to 0.
\<close>

theorem reconnection_backoff:
  "reconnection_delay (Backend_init a) = 1 \<and>
   reconnection_count (Backend_init a) = 0 \<and>
   delay_reconnect ((Backend_init a)\<lparr>reconnection_count := c, reconnection_delay := d\<rparr>) (Slept u) =
     (Inr (),
      (Backend_init a)\<lparr>reconnection_count := c,
                        reconnection_delay :=
                          binary64 (min (binary64 (d * (7 / 4))) 600 + uniform 0 3 u)\<rparr>,
      [Sleep d]) \<and>
   uniform 0 3 0 = 0 \<and>
   final_delay_count (serve_forever (Backend_init a)
       (failed_cycles kinds @ [(Returned True, slept)])) =
     Some (min (1 * (7 / 4) ^ length kinds) 600, int (length kinds)) \<and>
   (12 \<le> length kinds \<longrightarrow>
      final_delay_count (serve_forever (Backend_init a)
          (failed_cycles kinds @ [(Returned True, slept)])) =
        Some (600, int (length kinds))) \<and>
   reconnection_delay (reset_reconnection_count b) = 1 \<and>
   reconnection_count (reset_reconnection_count b) = 0"
proof -
  have step: "delay_reconnect ((Backend_init a)\<lparr>reconnection_count := c, reconnection_delay := d\<rparr>) (Slept u) =
     (Inr (),
      (Backend_init a)\<lparr>reconnection_count := c,
                        reconnection_delay :=
                          binary64 (min (binary64 (d * (7 / 4))) 600 + uniform 0 3 u)\<rparr>,
      [Sleep d])"
    by (simp add: Backend_init_def Let_def min_def)
  have big: "final_delay_count (serve_forever (Backend_init a)
          (failed_cycles kinds @ [(Returned True, slept)])) =
        Some (600, int (length kinds))" if "12 \<le> length kinds"
    unfolding after_failures using above_cap [OF that] by simp
  show ?thesis
    using step big after_failures [of a kinds slept] uniform_no_jitter
    by (simp add: Backend_init_def reset_reconnection_count_def)
qed

text \<open>
  C1 on thirteen failures, raises and falsy returns in turn: the delay is at the cap.
\<close>

theorem reconnection_backoff_witness:
  "12 \<le> length [True, False, True, False, True, False, True, False, True, False, True,
                 False, True] \<and>
   final_delay_count (serve_forever (Backend_init [])
       (failed_cycles [True, False, True, False, True, False, True, False, True, False, True,
                       False, True] @ [(Returned True, Slept 0)])) =
     Some (600, 13)"
proof -
  let ?kinds = "[True, False, True, False, True, False, True, False, True, False, True,
                 False, True]"
  have long: "12 \<le> length ?kinds" by simp
  have "final_delay_count (serve_forever (Backend_init [])
       (failed_cycles ?kinds @ [(Returned True, Slept 0)])) = Some (600, int (length ?kinds))"
    using reconnection_backoff [of "[]" _ _ _ ?kinds "Slept 0"] long by blast
  then show ?thesis using long by simp
qed


section \<open>Three failures, then shutdown\<close>

lemma round2_values:
  "round2 1 = 1" "round2 (7 / 4) = 7 / 4" "round2 (49 / 16) = 153 / 50"
  "round2 (343 / 64) = 134 / 25"
  by code_simp+

lemma three_failures_run:
  "serve_forever (Backend_init a)
     [(Raised, Slept 0), (Raised, Slept 0), (Raised, Slept 0), (Returned True, slept)] =
   Some (Inr (),
         (Backend_init a)\<lparr>reconnection_count := 3, reconnection_delay := 343 / 64\<rparr>,
         [CallServeOnce, LogException, LogReconnecting 1 0, Sleep 1,
          CallServeOnce, LogException, LogReconnecting (7 / 4) 1, Sleep (7 / 4),
          CallServeOnce, LogException, LogReconnecting (49 / 16) 2, Sleep (49 / 16),
          CallServeOnce, LogTriggerShutdown, CallShutdown])"
  by (simp add: serve_forever_def Backend_init_def Let_def uniform_no_jitter binary64_small)

lemma three_failures_any_jitter:
  "\<exists>b evs. serve_forever (Backend_init a)
     [(Raised, Slept u1), (Raised, Slept u2), (Raised, Slept u3), (Returned True, slept)] =
       Some (Inr (), b, evs) \<and>
     length (logged_reconnections evs) = 3 \<and>
     map snd (logged_reconnections evs) = [0, 1, 2] \<and>
     hd (logged_reconnections evs) = (1, 0) \<and>
     sleeps evs = map fst (logged_reconnections evs) \<and>
     count_list evs CallServeOnce = 4 \<and>
     count_list evs LogException = 3 \<and>
     count_list evs CallShutdown = 1 \<and>
     last evs = CallShutdown"
  by (simp add: serve_forever_def Backend_init_def Let_def uniform_no_jitter binary64_small)

lemma stored_delays:
  "final_delay_count (serve_forever (Backend_init a) [(Raised, Slept 0), (Returned True, slept)])
     = Some (7 / 4, 1)"
  "final_delay_count (serve_forever (Backend_init a)
       [(Raised, Slept 0), (Raised, Slept 0), (Returned True, slept)])
     = Some (49 / 16, 2)"
  "final_delay_count (serve_forever (Backend_init a)
       [(Raised, Slept 0), (Raised, Slept 0), (Raised, Slept 0), (Returned True, slept)])
     = Some (343 / 64, 3)"
  by (simp_all add: final_delay_count_def serve_forever_def Backend_init_def Let_def
        uniform_no_jitter binary64_small)

text \<open>
  C2, as the code has it. \<^verbatim>\<open>serve_once\<close> raises three times and then returns a truthy
  value. Whatever the jitter, the run logs exactly three reconnections (counts 0, 1, 2,
  the first with delay 1), sleeps the delay each of them logs, calls \<^verbatim>\<open>serve_once\<close> four
  times and \<^verbatim>\<open>shutdown\<close> once, last. With the jitter ignored the run is the one written
  out below: the delays logged and slept are 1, 1.75 and 3.0625, strictly increasing, and
  the delay stored by the first, second and third failed cycle for the next one is 1.75,
  3.0625 and 5.359375 (1.75, 3.06 and 5.36 rounded).
\<close>

theorem three_failures_then_shutdown:
  "(\<exists>b evs. serve_forever (Backend_init a)
       [(Raised, Slept u1), (Raised, Slept u2), (Raised, Slept u3), (Returned True, slept)] =
         Some (Inr (), b, evs) \<and>
       length (logged_reconnections evs) = 3 \<and>
       map snd (logged_reconnections evs) = [0, 1, 2] \<and>
       hd (logged_reconnections evs) = (1, 0) \<and>
       sleeps evs = map fst (logged_reconnections evs) \<and>
       count_list evs CallServeOnce = 4 \<and>
       count_list evs LogException = 3 \<and>
       count_list evs CallShutdown = 1 \<and>
       last evs = CallShutdown) \<and>
   serve_forever (Backend_init a)
     [(Raised, Slept 0), (Raised, Slept 0), (Raised, Slept 0), (Returned True, slept)] =
     Some (Inr (),
         (Backend_init a)\<lparr>reconnection_count := 3, reconnection_delay := 343 / 64\<rparr>,
         [CallServeOnce, LogException, LogReconnecting 1 0, Sleep 1,
          CallServeOnce, LogException, LogReconnecting (7 / 4) 1, Sleep (7 / 4),
          CallServeOnce, LogException, LogReconnecting (49 / 16) 2, Sleep (49 / 16),
          CallServeOnce, LogTriggerShutdown, CallShutdown]) \<and>
   map_option (sorted_wrt (<)) (logged_delays (serve_forever (Backend_init a)
     [(Raised, Slept 0), (Raised, Slept 0), (Raised, Slept 0), (Returned True, slept)])) =
     Some True \<and>
   map_option (map round2) (logged_delays (serve_forever (Backend_init a)
     [(Raised, Slept 0), (Raised, Slept 0), (Raised, Slept 0), (Returned True, slept)])) =
     Some [1, 175 / 100, 306 / 100] \<and>
   map_option (round2 \<circ> fst) (final_delay_count (serve_forever (Backend_init a)
     [(Raised, Slept 0), (Returned True, slept)])) = Some (175 / 100) \<and>
   map_option (round2 \<circ> fst) (final_delay_count (serve_forever (Backend_init a)
     [(Raised, Slept 0), (Raised, Slept 0), (Returned True, slept)])) = Some (306 / 100) \<and>
   map_option (round2 \<circ> fst) (final_delay_count (serve_forever (Backend_init a)
     [(Raised, Slept 0), (Raised, Slept 0), (Raised, Slept 0), (Returned True, slept)])) =
     Some (536 / 100)"
proof -
  note run = three_failures_run [of a slept]
  have logged: "logged_delays (serve_forever (Backend_init a)
     [(Raised, Slept 0), (Raised, Slept 0), (Raised, Slept 0), (Returned True, slept)]) =
     Some [1, 7 / 4, 49 / 16]"
    unfolding run by (simp add: logged_delays_def)
  have incr: "sorted_wrt (<) [1, 7 / 4, 49 / 16 :: rat]" by simp
  have rounded: "map round2 [1, 7 / 4, 49 / 16] = [1, 175 / 100, 306 / 100]"
    by (simp add: round2_values)
  show ?thesis
    unfolding logged stored_delays
    using three_failures_any_jitter [of a u1 u2 u3 slept] run incr rounded
    by (simp add: round2_values)
qed

text \<open>
  C2 as stated fails: the three reconnections do not log (or sleep) 1.75, 3.06 and 5.36.
  Each cycle logs and sleeps the delay stored before it, so the first waits 1 and the
  value 5.36 is stored but never used.
\<close>

theorem logged_delays_lag_by_one:
  "logged_delays (serve_forever (Backend_init [])
     [(Raised, Slept 0), (Raised, Slept 0), (Raised, Slept 0), (Returned True, Slept 0)]) =
     Some [1, 7 / 4, 49 / 16] \<and>
   map_option (map round2) (logged_delays (serve_forever (Backend_init [])
     [(Raised, Slept 0), (Raised, Slept 0), (Raised, Slept 0), (Returned True, Slept 0)])) \<noteq>
     Some [175 / 100, 306 / 100, 536 / 100]"
proof -
  have logged: "logged_delays (serve_forever (Backend_init [])
     [(Raised, Slept 0), (Raised, Slept 0), (Raised, Slept 0), (Returned True, Slept 0)]) =
     Some [1, 7 / 4, 49 / 16]"
    unfolding three_failures_run by (simp add: logged_delays_def)
  show ?thesis unfolding logged by (simp add: round2_values)
qed


section \<open>Leaving the serve loop\<close>

text \<open>
  The loop is left in the first iteration in which \<^verbatim>\<open>serve_once\<close> returns a truthy value
  or is interrupted, or the sleep is interrupted; until then it goes on.
\<close>

lemma serve_loop_None_iff:
  "serve_loop b script = None \<longleftrightarrow> \<not> list_ex exits script"
proof (induction script arbitrary: b)
  case Nil
  show ?case by simp
next
  case (Cons c script)
  obtain served slept where c: "c = (served, slept)" by (cases c)
  show ?case
  proof (cases slept)
    case SleepInterrupted
    then show ?thesis using c by simp
  next
    case (Slept u)
    then show ?thesis using c Cons.IH by (simp add: Let_def)
  qed
qed

lemma serve_loop_events:
  "serve_loop b script = Some (r, b', evs) \<Longrightarrow>
     r = Inr () \<and> CallShutdown \<notin> set evs \<and>
     count_list evs CallServeOnce = length (takeWhile (\<lambda>c. \<not> exits c) script) + 1 \<and>
     (LogInterrupt \<in> set evs \<longrightarrow>
        (\<exists>evs0. evs = evs0 @ [LogInterrupt] \<and> LogInterrupt \<notin> set evs0 \<and> evs0 \<noteq> [] \<and>
           (last evs0 = CallServeOnce \<or> (\<exists>d. last evs0 = Sleep d))))"
proof (induction script arbitrary: b r b' evs)
  case Nil
  then show ?case by simp
next
  case (Cons c script)
  obtain served slept where c: "c = (served, slept)" by (cases c)
  show ?case
  proof (cases "served = Returned True \<or> served = Interrupted")
    case True
    then show ?thesis using Cons.prems c by (auto split: if_splits)
  next
    case False
    note nf = False
    let ?evs = "CallServeOnce # (if served = Raised then [LogException] else []) @
                   [LogReconnecting (reconnection_delay b) (reconnection_count b)]"
    show ?thesis
    proof (cases slept)
      case SleepInterrupted
      then have "evs = ?evs @ [Sleep (reconnection_delay b)] @ [LogInterrupt]" "r = Inr ()"
        using Cons.prems c nf by (auto split: if_splits)
      then show ?thesis using c SleepInterrupted by auto
    next
      case (Slept u)
      let ?b1 = "fst (snd (delay_reconnect b slept))"
      let ?b2 = "?b1\<lparr>reconnection_count := reconnection_count ?b1 + 1\<rparr>"
      obtain r2 b2 evs2 where rec: "serve_loop ?b2 script = Some (r2, b2, evs2)"
        and res: "r = r2" "b' = b2" "evs = ?evs @ [Sleep (reconnection_delay b)] @ evs2"
        using Cons.prems c nf Slept by (auto simp: Let_def split: if_splits)
      note ih = Cons.IH [OF rec]
      have ne: "\<not> exits c" using c nf Slept by simp
      have part1: "r = Inr ()" "CallShutdown \<notin> set evs"
        using ih res by auto
      have part2: "count_list evs CallServeOnce =
          length (takeWhile (\<lambda>c. \<not> exits c) (c # script)) + 1"
        using ih res ne by auto
      have part3: "\<exists>evs0. evs = evs0 @ [LogInterrupt] \<and> LogInterrupt \<notin> set evs0 \<and>
           evs0 \<noteq> [] \<and> (last evs0 = CallServeOnce \<or> (\<exists>d. last evs0 = Sleep d))"
        if "LogInterrupt \<in> set evs"
      proof -
        from that res have "LogInterrupt \<in> set evs2" by (auto split: if_splits)
        with ih obtain evs0 where e0: "evs2 = evs0 @ [LogInterrupt]" "LogInterrupt \<notin> set evs0"
          "evs0 \<noteq> []" "last evs0 = CallServeOnce \<or> (\<exists>d. last evs0 = Sleep d)" by blast
        let ?pre = "?evs @ [Sleep (reconnection_delay b)] @ evs0"
        have "evs = ?pre @ [LogInterrupt]" using res e0 by simp
        moreover have "LogInterrupt \<notin> set ?pre" using e0 by auto
        moreover have "?pre \<noteq> []" by simp
        moreover have "last ?pre = last evs0" using e0 by simp
        ultimately show ?thesis using e0(4) by metis
      qed
      show ?thesis using part1 part2 part3 by blast
    qed
  qed
qed

text \<open>
  C3. \<^verbatim>\<open>serve_forever\<close> returns exactly when some iteration leaves the loop (a truthy
  return, an interrupt in \<^verbatim>\<open>serve_once\<close> or an interrupt in the sleep). Whenever it
  returns, no exception escapes, \<^verbatim>\<open>shutdown\<close> was called exactly once and is the last
  thing done, and \<^verbatim>\<open>serve_once\<close> was called once per iteration up to the first that
  leaves, never after. An interrupt is logged at most once, directly after the call it
  interrupted (\<^verbatim>\<open>serve_once\<close> or the sleep, with no exception record in between), and
  nothing but the shutdown follows it.
\<close>


text \<open>
  The run up to the first iteration that leaves the loop: every iteration before it is a
  failed cycle whose sleep completes, and the one that leaves decides how the run ends.
\<close>

lemma logged_reconnections_append:
  "logged_reconnections (xs @ ys) = logged_reconnections xs @ logged_reconnections ys"
  by (induction xs rule: logged_reconnections.induct) simp_all

lemma sleeps_append: "sleeps (xs @ ys) = sleeps xs @ sleeps ys"
  by (induction xs rule: sleeps.induct) simp_all

lemma serve_loop_first_exit:
  assumes "\<not> list_ex exits pre" and "exits (served, slept)"
  shows "\<exists>b' evs0.
     serve_loop b (pre @ (served, slept) # rest) =
       Some (Inr (), b',
         evs0 @ CallServeOnce #
           (if served = Returned True then []
            else if served = Interrupted then [LogInterrupt]
            else (if served = Raised then [LogException] else []) @
                 [LogReconnecting (reconnection_delay b') (reconnection_count b'),
                  Sleep (reconnection_delay b'), LogInterrupt])) \<and>
     reconnection_count b' = reconnection_count b + int (length pre) \<and>
     count_list evs0 CallServeOnce = length pre \<and>
     count_list evs0 LogException = length (filter (\<lambda>c. fst c = Raised) pre) \<and>
     map snd (logged_reconnections evs0) =
       map (\<lambda>i. reconnection_count b + int i) [0..<length pre] \<and>
     sleeps evs0 = map fst (logged_reconnections evs0) \<and>
     LogInterrupt \<notin> set evs0 \<and> LogTriggerShutdown \<notin> set evs0 \<and> CallShutdown \<notin> set evs0"
  using assms(1)
proof (induction pre arbitrary: b)
  case Nil
  show ?case
  proof (cases "served = Returned True \<or> served = Interrupted")
    case True
    then show ?thesis by auto
  next
    case False
    then have "slept = SleepInterrupted" using assms(2) by simp
    with False show ?thesis by auto
  qed
next
  case (Cons c pre)
  obtain served0 slept0 where c: "c = (served0, slept0)" by (cases c)
  from Cons.prems c have ne: "served0 \<noteq> Returned True" "served0 \<noteq> Interrupted"
    "slept0 \<noteq> SleepInterrupted" and pre: "\<not> list_ex exits pre" by simp_all
  obtain u where u: "slept0 = Slept u" using ne(3) by (cases slept0) simp_all
  let ?b1 = "fst (snd (delay_reconnect b slept0))"
  let ?b2 = "?b1\<lparr>reconnection_count := reconnection_count ?b1 + 1\<rparr>"
  let ?evs = "CallServeOnce # (if served0 = Raised then [LogException] else []) @
              [LogReconnecting (reconnection_delay b) (reconnection_count b),
               Sleep (reconnection_delay b)]"
  let ?suffix = "\<lambda>b'. CallServeOnce #
           (if served = Returned True then []
            else if served = Interrupted then [LogInterrupt]
            else (if served = Raised then [LogException] else []) @
                 [LogReconnecting (reconnection_delay b') (reconnection_count b'),
                  Sleep (reconnection_delay b'), LogInterrupt])"
  have count2: "reconnection_count ?b2 = reconnection_count b + 1"
    using u by (simp add: Let_def)
  have step: "serve_loop b ((c # pre) @ (served, slept) # rest) =
      map_option (\<lambda>(r, b2, evs2). (r, b2, ?evs @ evs2))
        (serve_loop ?b2 (pre @ (served, slept) # rest))"
    using c ne u by (simp add: Let_def)
  from Cons.IH [OF pre, of ?b2] obtain b' evs0 where
    run: "serve_loop ?b2 (pre @ (served, slept) # rest) = Some (Inr (), b', evs0 @ ?suffix b')"
    and cnt: "reconnection_count b' = reconnection_count ?b2 + int (length pre)"
    and calls: "count_list evs0 CallServeOnce = length pre"
    and excs: "count_list evs0 LogException = length (filter (\<lambda>c. fst c = Raised) pre)"
    and logs: "map snd (logged_reconnections evs0) =
       map (\<lambda>i. reconnection_count ?b2 + int i) [0..<length pre]"
    and slp: "sleeps evs0 = map fst (logged_reconnections evs0)"
    and none: "LogInterrupt \<notin> set evs0" "LogTriggerShutdown \<notin> set evs0"
      "CallShutdown \<notin> set evs0"
    by blast
  have a: "serve_loop b ((c # pre) @ (served, slept) # rest) =
      Some (Inr (), b', (?evs @ evs0) @ ?suffix b')"
    unfolding step run by simp
  have b: "reconnection_count b' = reconnection_count b + int (length (c # pre))"
    using cnt count2 by simp
  have c1: "count_list (?evs @ evs0) CallServeOnce = length (c # pre)"
    using calls by simp
  have c2: "count_list (?evs @ evs0) LogException =
      length (filter (\<lambda>c. fst c = Raised) (c # pre))"
    using excs c by simp
  have "map (\<lambda>i. reconnection_count b + int i) [0..<length (c # pre)] =
      reconnection_count b # map (\<lambda>i. reconnection_count b + 1 + int i) [0..<length pre]"
    by (simp add: map_upt_Suc add.assoc del: upt_Suc)
  then have c3: "map snd (logged_reconnections (?evs @ evs0)) =
       map (\<lambda>i. reconnection_count b + int i) [0..<length (c # pre)]"
    using logs count2 by (simp add: logged_reconnections_append del: upt_Suc)
  have c4: "sleeps (?evs @ evs0) = map fst (logged_reconnections (?evs @ evs0))"
    using slp by (simp add: logged_reconnections_append sleeps_append)
  have c5: "LogInterrupt \<notin> set (?evs @ evs0)" "LogTriggerShutdown \<notin> set (?evs @ evs0)"
    "CallShutdown \<notin> set (?evs @ evs0)"
    using none by simp_all
  show ?case using a b c1 c2 c3 c4 c5 by blast
qed

text \<open>
  C3. \<^verbatim>\<open>serve_forever\<close> returns exactly when some iteration leaves the loop (a truthy
  return, an interrupt in \<^verbatim>\<open>serve_once\<close> or an interrupt in the sleep). Whenever it
  returns, no exception escapes, \<^verbatim>\<open>shutdown\<close> was called exactly once and is the last
  thing done, and \<^verbatim>\<open>serve_once\<close> was called once per iteration up to the first that
  leaves, never after. An interrupt is logged at most once, directly after the call it
  interrupted, and nothing but the shutdown follows it.

  The run is fixed by the first iteration that leaves. Before it come the failed cycles:
  one \<^verbatim>\<open>serve_once\<close> call, one logged reconnection (with counts rising from the initial
  one) and one sleep of the logged delay for each, an exception record for each raise, and
  the count goes up by their number. The leaving iteration then runs as follows, and
  nothing of the script after it is used. A truthy return: the call, then the shutdown.
  An interrupt in \<^verbatim>\<open>serve_once\<close>: the call, the interrupt record, then the shutdown,
  with no exception record, no reconnection, no sleep and no change of state. An interrupt
  in the sleep: the call, the exception record if it raised, the reconnection record, the
  interrupted sleep, the interrupt record, then the shutdown, the delay and the count as
  they were before the sleep.
\<close>

theorem serve_forever_shutdown_exactly_once:
  "(serve_forever b script \<noteq> None \<longleftrightarrow> list_ex exits script) \<and>
   (\<forall>r b' evs. serve_forever b script = Some (r, b', evs) \<longrightarrow>
      r = Inr () \<and>
      count_list evs CallShutdown = 1 \<and>
      (\<exists>evs0. evs = evs0 @ [LogTriggerShutdown, CallShutdown]) \<and>
      count_list evs CallServeOnce = length (takeWhile (\<lambda>c. \<not> exits c) script) + 1 \<and>
      (LogInterrupt \<in> set evs \<longrightarrow>
         (\<exists>evs0. evs = evs0 @ [LogInterrupt, LogTriggerShutdown, CallShutdown] \<and>
            LogInterrupt \<notin> set evs0 \<and> evs0 \<noteq> [] \<and>
            (last evs0 = CallServeOnce \<or> (\<exists>d. last evs0 = Sleep d))))) \<and>
   (\<forall>pre served slept rest.
      script = pre @ (served, slept) # rest \<and> \<not> list_ex exits pre \<and> exits (served, slept) \<longrightarrow>
      (\<exists>b' evs0.
         serve_forever b script =
           Some (Inr (), b',
             evs0 @ CallServeOnce #
               (if served = Returned True then []
                else if served = Interrupted then [LogInterrupt]
                else (if served = Raised then [LogException] else []) @
                     [LogReconnecting (reconnection_delay b') (reconnection_count b'),
                      Sleep (reconnection_delay b'), LogInterrupt]) @
               [LogTriggerShutdown, CallShutdown]) \<and>
         reconnection_count b' = reconnection_count b + int (length pre) \<and>
         count_list evs0 CallServeOnce = length pre \<and>
         count_list evs0 LogException = length (filter (\<lambda>c. fst c = Raised) pre) \<and>
         map snd (logged_reconnections evs0) =
           map (\<lambda>i. reconnection_count b + int i) [0..<length pre] \<and>
         sleeps evs0 = map fst (logged_reconnections evs0) \<and>
         LogInterrupt \<notin> set evs0 \<and> LogTriggerShutdown \<notin> set evs0 \<and>
         CallShutdown \<notin> set evs0))"
proof (intro conjI allI impI)
  show "serve_forever b script \<noteq> None \<longleftrightarrow> list_ex exits script"
    using serve_loop_None_iff [of b script]
    by (auto simp: serve_forever_def split: option.splits sum.splits)
next
  fix r b' evs
  assume run: "serve_forever b script = Some (r, b', evs)"
  then obtain r1 evs1 where loop: "serve_loop b script = Some (r1, b', evs1)"
    by (auto simp: serve_forever_def split: option.splits sum.splits)
  note ev = serve_loop_events [OF loop]
  have r1: "r1 = Inr ()" using ev by simp
  have evs: "evs = evs1 @ [LogTriggerShutdown, CallShutdown]" and r: "r = Inr ()"
    using run loop r1 by (auto simp: serve_forever_def)
  show "r = Inr ()" by (rule r)
  have "count_list evs1 CallShutdown = 0" using ev by (simp add: count_list_0_iff)
  then show "count_list evs CallShutdown = 1" by (simp add: evs)
  show "\<exists>evs0. evs = evs0 @ [LogTriggerShutdown, CallShutdown]" using evs by blast
  show "count_list evs CallServeOnce = length (takeWhile (\<lambda>c. \<not> exits c) script) + 1"
    using ev by (simp add: evs)
  assume "LogInterrupt \<in> set evs"
  then have "LogInterrupt \<in> set evs1" by (simp add: evs)
  with ev obtain evs0 where "evs1 = evs0 @ [LogInterrupt]" "LogInterrupt \<notin> set evs0"
    "evs0 \<noteq> []" "last evs0 = CallServeOnce \<or> (\<exists>d. last evs0 = Sleep d)" by blast
  then show "\<exists>evs0. evs = evs0 @ [LogInterrupt, LogTriggerShutdown, CallShutdown] \<and>
            LogInterrupt \<notin> set evs0 \<and> evs0 \<noteq> [] \<and>
            (last evs0 = CallServeOnce \<or> (\<exists>d. last evs0 = Sleep d))"
    by (simp add: evs)
next
  fix pre served slept rest
  assume "script = pre @ (served, slept) # rest \<and> \<not> list_ex exits pre \<and> exits (served, slept)"
  then have script: "script = pre @ (served, slept) # rest"
    and pre: "\<not> list_ex exits pre" and ex: "exits (served, slept)" by simp_all
  from serve_loop_first_exit [OF pre ex, of b rest] obtain b' evs0 where
    loop: "serve_loop b (pre @ (served, slept) # rest) =
       Some (Inr (), b',
         evs0 @ CallServeOnce #
           (if served = Returned True then []
            else if served = Interrupted then [LogInterrupt]
            else (if served = Raised then [LogException] else []) @
                 [LogReconnecting (reconnection_delay b') (reconnection_count b'),
                  Sleep (reconnection_delay b'), LogInterrupt]))"
    and rest: "reconnection_count b' = reconnection_count b + int (length pre)"
      "count_list evs0 CallServeOnce = length pre"
      "count_list evs0 LogException = length (filter (\<lambda>c. fst c = Raised) pre)"
      "map snd (logged_reconnections evs0) =
         map (\<lambda>i. reconnection_count b + int i) [0..<length pre]"
      "sleeps evs0 = map fst (logged_reconnections evs0)"
      "LogInterrupt \<notin> set evs0" "LogTriggerShutdown \<notin> set evs0" "CallShutdown \<notin> set evs0"
    by blast
  have "serve_forever b script =
           Some (Inr (), b',
             evs0 @ CallServeOnce #
               (if served = Returned True then []
                else if served = Interrupted then [LogInterrupt]
                else (if served = Raised then [LogException] else []) @
                     [LogReconnecting (reconnection_delay b') (reconnection_count b'),
                      Sleep (reconnection_delay b'), LogInterrupt]) @
               [LogTriggerShutdown, CallShutdown])"
    unfolding script serve_forever_def loop by simp
  then show "\<exists>b' evs0.
         serve_forever b script =
           Some (Inr (), b',
             evs0 @ CallServeOnce #
               (if served = Returned True then []
                else if served = Interrupted then [LogInterrupt]
                else (if served = Raised then [LogException] else []) @
                     [LogReconnecting (reconnection_delay b') (reconnection_count b'),
                      Sleep (reconnection_delay b'), LogInterrupt]) @
               [LogTriggerShutdown, CallShutdown]) \<and>
         reconnection_count b' = reconnection_count b + int (length pre) \<and>
         count_list evs0 CallServeOnce = length pre \<and>
         count_list evs0 LogException = length (filter (\<lambda>c. fst c = Raised) pre) \<and>
         map snd (logged_reconnections evs0) =
           map (\<lambda>i. reconnection_count b + int i) [0..<length pre] \<and>
         sleeps evs0 = map fst (logged_reconnections evs0) \<and>
         LogInterrupt \<notin> set evs0 \<and> LogTriggerShutdown \<notin> set evs0 \<and>
         CallShutdown \<notin> set evs0"
    using rest by blast
qed

text \<open>
  C3 on two runs: a failure, then a falsy return whose sleep is interrupted; and an
  interrupt in the first \<^verbatim>\<open>serve_once\<close>.
\<close>

theorem serve_forever_shutdown_exactly_once_witness:
  "list_ex exits [(Raised, Slept 0), (Returned False, SleepInterrupted), (Raised, Slept 0)] \<and>
   serve_forever (Backend_init [])
       [(Raised, Slept 0), (Returned False, SleepInterrupted), (Raised, Slept 0)] =
     Some (Inr (),
       (Backend_init [])\<lparr>reconnection_count := 1, reconnection_delay := 7 / 4\<rparr>,
       [CallServeOnce, LogException, LogReconnecting 1 0, Sleep 1,
        CallServeOnce, LogReconnecting (7 / 4) 1, Sleep (7 / 4), LogInterrupt,
        LogTriggerShutdown, CallShutdown]) \<and>
   LogInterrupt \<in> set [CallServeOnce, LogException, LogReconnecting 1 0, Sleep 1,
        CallServeOnce, LogReconnecting (7 / 4) 1, Sleep (7 / 4), LogInterrupt,
        LogTriggerShutdown, CallShutdown] \<and>
   count_list [CallServeOnce, LogException, LogReconnecting 1 0, Sleep 1,
        CallServeOnce, LogReconnecting (7 / 4) 1, Sleep (7 / 4), LogInterrupt,
        LogTriggerShutdown, CallShutdown] CallShutdown = 1 \<and>
   (\<exists>evs0. [CallServeOnce, LogException, LogReconnecting 1 0, Sleep 1,
        CallServeOnce, LogReconnecting (7 / 4) 1, Sleep (7 / 4), LogInterrupt,
        LogTriggerShutdown, CallShutdown] =
        evs0 @ [LogInterrupt, LogTriggerShutdown, CallShutdown] \<and>
      LogInterrupt \<notin> set evs0 \<and> evs0 \<noteq> [] \<and>
      (last evs0 = CallServeOnce \<or> (\<exists>d. last evs0 = Sleep d))) \<and>
   (\<exists>b' evs0.
      serve_forever (Backend_init [])
          [(Raised, Slept 0), (Returned False, SleepInterrupted), (Raised, Slept 0)] =
        Some (Inr (), b',
          evs0 @ [CallServeOnce,
                  LogReconnecting (reconnection_delay b') (reconnection_count b'),
                  Sleep (reconnection_delay b'), LogInterrupt,
                  LogTriggerShutdown, CallShutdown]) \<and>
      reconnection_count b' = 1 \<and> count_list evs0 CallServeOnce = 1 \<and>
      count_list evs0 LogException = 1 \<and> map snd (logged_reconnections evs0) = [0] \<and>
      LogInterrupt \<notin> set evs0) \<and>
   serve_forever (Backend_init []) [(Interrupted, Slept 0), (Raised, Slept 0)] =
     Some (Inr (), Backend_init [],
           [CallServeOnce, LogInterrupt, LogTriggerShutdown, CallShutdown]) \<and>
   count_list [CallServeOnce, LogInterrupt, LogTriggerShutdown, CallShutdown] CallServeOnce =
     length (takeWhile (\<lambda>c. \<not> exits c) [(Interrupted, Slept 0), (Raised, Slept 0)]) + 1 \<and>
   (\<exists>b' evs0.
      serve_forever (Backend_init []) [(Interrupted, Slept 0), (Raised, Slept 0)] =
        Some (Inr (), b', evs0 @ [CallServeOnce, LogInterrupt, LogTriggerShutdown, CallShutdown]) \<and>
      reconnection_count b' = 0 \<and> count_list evs0 CallServeOnce = 0 \<and>
      map snd (logged_reconnections evs0) = [])"
proof -
  let ?b = "Backend_init []"
  let ?s1 = "[(Raised, Slept 0), (Returned False, SleepInterrupted), (Raised, Slept 0)]"
  let ?e1 = "[CallServeOnce, LogException, LogReconnecting 1 0, Sleep 1,
        CallServeOnce, LogReconnecting (7 / 4) 1, Sleep (7 / 4), LogInterrupt,
        LogTriggerShutdown, CallShutdown]"
  let ?s2 = "[(Interrupted, Slept 0), (Raised, Slept 0)]"
  let ?e2 = "[CallServeOnce, LogInterrupt, LogTriggerShutdown, CallShutdown]"
  have c0: "reconnection_count ?b = 0" by (simp add: Backend_init_def)
  have ex1: "list_ex exits ?s1" by simp
  have run1: "serve_forever ?b ?s1 =
     Some (Inr (), ?b\<lparr>reconnection_count := 1, reconnection_delay := 7 / 4\<rparr>, ?e1)"
    by (simp add: serve_forever_def Backend_init_def Let_def uniform_no_jitter binary64_small)
  have int1: "LogInterrupt \<in> set ?e1" by simp
  have run2: "serve_forever ?b ?s2 = Some (Inr (), ?b, ?e2)"
    by (simp add: serve_forever_def)
  note at1 = serve_forever_shutdown_exactly_once [of ?b ?s1]
  note at2 = serve_forever_shutdown_exactly_once [of ?b ?s2]
  have once: "count_list ?e1 CallShutdown = 1" using at1 run1 by blast
  have after: "\<exists>evs0. ?e1 = evs0 @ [LogInterrupt, LogTriggerShutdown, CallShutdown] \<and>
      LogInterrupt \<notin> set evs0 \<and> evs0 \<noteq> [] \<and>
      (last evs0 = CallServeOnce \<or> (\<exists>d. last evs0 = Sleep d))"
    using at1 run1 int1 by blast
  have calls: "count_list ?e2 CallServeOnce =
     length (takeWhile (\<lambda>c. \<not> exits c) ?s2) + 1"
    using at2 run2 by blast
  have split1: "?s1 = [(Raised, Slept 0)] @ (Returned False, SleepInterrupted) # [(Raised, Slept 0)] \<and>
      \<not> list_ex exits [(Raised, Slept 0)] \<and> exits (Returned False, SleepInterrupted)"
    by simp
  have exit1: "\<exists>b' evs0.
      serve_forever ?b ?s1 =
        Some (Inr (), b',
          evs0 @ [CallServeOnce,
                  LogReconnecting (reconnection_delay b') (reconnection_count b'),
                  Sleep (reconnection_delay b'), LogInterrupt,
                  LogTriggerShutdown, CallShutdown]) \<and>
      reconnection_count b' = 1 \<and> count_list evs0 CallServeOnce = 1 \<and>
      count_list evs0 LogException = 1 \<and> map snd (logged_reconnections evs0) = [0] \<and>
      LogInterrupt \<notin> set evs0"
    using at1 [THEN conjunct2, THEN conjunct2, rule_format, OF split1] c0
    by (simp del: serve_loop.simps) (elim exE conjE, intro exI conjI, assumption+)
  have split2: "?s2 = [] @ (Interrupted, Slept 0) # [(Raised, Slept 0)] \<and>
      \<not> list_ex exits [] \<and> exits (Interrupted, Slept 0)"
    by simp
  have exit2: "\<exists>b' evs0.
      serve_forever ?b ?s2 =
        Some (Inr (), b', evs0 @ ?e2) \<and>
      reconnection_count b' = 0 \<and> count_list evs0 CallServeOnce = 0 \<and>
      map snd (logged_reconnections evs0) = []"
    using at2 [THEN conjunct2, THEN conjunct2, rule_format, OF split2] c0
    by (simp del: serve_loop.simps) (elim exE conjE, intro exI conjI, assumption+)
  show ?thesis using ex1 run1 int1 once after exit1 run2 calls exit2 by blast
qed


section \<open>Cloning a message\<close>

text \<open>
  When the message's \<^verbatim>\<open>extras\<close> is a non-empty mapping, \<^verbatim>\<open>clone\<close> allocates one new
  message, with the same \<^verbatim>\<open>extras\<close> reference and the other fields carried over (the
  body through \<^verbatim>\<open>compat_str\<close>), and touches no mapping.
\<close>

lemma clone_shares_truthy_extras:
  assumes "messages h self = Some m" and "truthy h (extras m)" and "self < next_ref h"
  shows "\<exists>h'. clone compat_str h self = Some (next_ref h, h') \<and>
           next_ref h \<noteq> self \<and>
           messages h' self = Some m \<and>
           messages h' (next_ref h) = Some (m\<lparr>body := compat_str (body m)\<rparr>) \<and>
           dicts h' = dicts h"
  using assms by (simp add: clone_def Message_init_def truthy_def Let_def)

text \<open>
  C9 fails on a message built with the default \<^verbatim>\<open>extras\<close>. \<^verbatim>\<open>Message('hi')\<close> gets a
  new empty mapping (at address 1); its clone is built by \<^verbatim>\<open>Message(..., self.extras)\<close>,
  where \<^verbatim>\<open>extras or dict()\<close> finds the empty mapping falsy and allocates another one (at
  address 3). The clone is a new message with the same body, sender, recipient and delay
  flag, but its \<^verbatim>\<open>extras\<close> is not the original's mapping.
\<close>

theorem clone_of_empty_extras_is_not_shared:
  "(case Message_init (\<lambda>s. s) empty_heap ''hi'' None None False None of
      (m, h) \<Rightarrow>
        (case clone (\<lambda>s. s) h m of
           None \<Rightarrow> False
         | Some (c, h') \<Rightarrow>
             m = 0 \<and> c = 2 \<and>
             messages h' m =
               Some \<lparr> body = ''hi'', frm = None, to = None, delayed = False, extras = 1 \<rparr> \<and>
             messages h' c =
               Some \<lparr> body = ''hi'', frm = None, to = None, delayed = False, extras = 3 \<rparr> \<and>
             dicts h' 1 = Some [] \<and> dicts h' 3 = Some [] \<and>
             map_option extras (messages h' c) \<noteq> map_option extras (messages h' m)))"
  by (simp add: Message_init_def clone_def new_dict_def truthy_def empty_heap_def Let_def)



end
